theory Spec2Isabelle
  imports Main
begin

section \<open>The CSS selector builder of 08-objects-tasks.js\<close>

subsection \<open>Data\<close>

text \<open>
  An entry of \<^verbatim>\<open>this.selectors\<close> is an object literal \<^verbatim>\<open>{ type, value }\<close>; the entry that
  \<^verbatim>\<open>combine\<close> pushes is \<^verbatim>\<open>{ value }\<close> and has no \<^verbatim>\<open>type\<close> property, so reading it gives
  \<^verbatim>\<open>undefined\<close>: that is \<open>None\<close> here. Values are strings, as the spec's table has them.
\<close>

record selector =
  sel_type :: "string option"
  sel_value :: string

text \<open>
  The builder object. Its \<^verbatim>\<open>order\<close> field is written once by the constructor and never
  assigned again, so it is the constant \<open>order\<close> below; \<^verbatim>\<open>selectors\<close> is the mutable array.
\<close>

record CssSelectorBuilder =
  selectors :: "selector list"

text \<open>
  What a call can throw. \<^verbatim>\<open>throw new Error(message)\<close> of the builder is \<open>Error\<close> with
  its message; \<open>TypeError\<close> and \<open>SyntaxError\<close> are the errors the built-in functions behind
  \<^verbatim>\<open>getJSON\<close> and \<^verbatim>\<open>fromJSON\<close> throw (their messages depend on the engine and are left
  out). \<open>NotModelled\<close> is no JavaScript error: it marks an input on which the model of a
  built-in function below makes no statement.
\<close>

datatype error = Error string | TypeError | SyntaxError | NotModelled

definition DuplicateSelector :: error where
  "DuplicateSelector =
     Error ''Element, id and pseudo-element should not occur more then one time inside the selector''"

definition OrderViolation :: error where
  "OrderViolation =
     Error ''Selector parts should be arranged in the following order: element, id, class, attribute, pseudo-class, pseudo-element''"

text \<open>
  A method runs on the builder it is called on (\<^verbatim>\<open>this\<close>) and either returns or throws;
  in both cases the builder is left in some state, the second component. A method that
  ends with \<^verbatim>\<open>return this\<close> returns \<open>()\<close>: the object returned is the builder whose state
  is the second component.
\<close>

type_synonym 'a meth = "CssSelectorBuilder \<Rightarrow> (error + 'a) \<times> CssSelectorBuilder"

definition returns :: "'a \<Rightarrow> 'a meth" where
  "returns x b = (Inr x, b)"

definition throw :: "error \<Rightarrow> 'a meth" where
  "throw e b = (Inl e, b)"

text \<open>Two statements in sequence: the second runs only when the first did not throw.\<close>

definition seq :: "unit meth \<Rightarrow> 'a meth \<Rightarrow> 'a meth" where
  "seq m k b = (case m b of (Inl e, b') \<Rightarrow> (Inl e, b') | (Inr u, b') \<Rightarrow> k b')"

subsection \<open>The constructor and the two checks\<close>

definition new_CssSelectorBuilder :: CssSelectorBuilder where
  "new_CssSelectorBuilder = \<lparr>selectors = []\<rparr>"

definition order_table :: "(string \<times> nat) list" where
  "order_table =
     [(''element'', 0), (''id'', 1), (''class'', 2), (''attr'', 3),
      (''pseudoClass'', 4), (''pseudoElement'', 5)]"

text \<open>
  \<^verbatim>\<open>this.order[key]\<close>. A key that is \<^verbatim>\<open>undefined\<close> is converted to the property name
  \<^verbatim>\<open>"undefined"\<close>. A name the table does not have reads as \<^verbatim>\<open>undefined\<close>, or, for a name
  such as \<^verbatim>\<open>constructor\<close>, as a function or object inherited from \<^verbatim>\<open>Object.prototype\<close>;
  none of these is a number, and \<open>None\<close> stands for all of them.
\<close>

definition order :: "string option \<Rightarrow> nat option" where
  "order key = map_of order_table (case key of None \<Rightarrow> ''undefined'' | Some k \<Rightarrow> k)"

text \<open>
  The operator \<^verbatim>\<open>>\<close> of JavaScript on these operands: an operand that is no number
  (\<^verbatim>\<open>undefined\<close>, or an inherited function or object) becomes NaN, and every comparison
  with NaN is false.
\<close>

fun js_gt :: "nat option \<Rightarrow> nat option \<Rightarrow> bool" where
  "js_gt (Some m) (Some n) = (n < m)"
| "js_gt _ _ = False"

definition checkCount :: "string \<Rightarrow> unit meth" where
  "checkCount type b =
     (let hasSelector = list_ex (\<lambda>selector. sel_type selector = Some type) (selectors b)
      in if hasSelector then throw DuplicateSelector b else returns () b)"

text \<open>
  \<^verbatim>\<open>const [prevSelector] = this.selectors.slice(-1)\<close> is the last entry; the array is not
  empty where it is read.
\<close>

definition checkOrder :: "string \<Rightarrow> unit meth" where
  "checkOrder type b =
     (if selectors b \<noteq> [] then
        (let prevSelector = last (selectors b)
         in if js_gt (order (sel_type prevSelector)) (order (Some type))
            then throw OrderViolation b else returns () b)
      else returns () b)"

definition push :: "selector \<Rightarrow> unit meth" where
  "push s b = returns () (b\<lparr>selectors := selectors b @ [s]\<rparr>)"

subsection \<open>The methods\<close>

definition element :: "string \<Rightarrow> unit meth" where
  "element v =
     seq (checkOrder ''element'') (seq (checkCount ''element'')
       (seq (push \<lparr>sel_type = Some ''element'', sel_value = v\<rparr>) (returns ())))"

definition id_sel :: "string \<Rightarrow> unit meth" where
  "id_sel v =
     seq (checkOrder ''id'') (seq (checkCount ''id'')
       (seq (push \<lparr>sel_type = Some ''id'', sel_value = ''#'' @ v\<rparr>) (returns ())))"

definition class_sel :: "string \<Rightarrow> unit meth" where
  "class_sel v =
     seq (checkOrder ''class'')
       (seq (push \<lparr>sel_type = Some ''class'', sel_value = ''.'' @ v\<rparr>) (returns ()))"

definition attr :: "string \<Rightarrow> unit meth" where
  "attr v =
     seq (checkOrder ''attr'')
       (seq (push \<lparr>sel_type = Some ''attr'', sel_value = ''['' @ v @ '']''\<rparr>) (returns ()))"

definition pseudoClass :: "string \<Rightarrow> unit meth" where
  "pseudoClass v =
     seq (checkOrder ''pseudoClass'')
       (seq (push \<lparr>sel_type = Some ''pseudoClass'', sel_value = '':'' @ v\<rparr>) (returns ()))"

definition pseudoElement :: "string \<Rightarrow> unit meth" where
  "pseudoElement v =
     seq (checkOrder ''pseudoElement'') (seq (checkCount ''pseudoElement'')
       (seq (push \<lparr>sel_type = Some ''pseudoElement'', sel_value = ''::'' @ v\<rparr>) (returns ())))"

text \<open>
  \<^verbatim>\<open>this.selectors.map((selector) => selector.value).join('')\<close>: neither \<^verbatim>\<open>map\<close> nor
  \<^verbatim>\<open>join\<close> writes to the array.
\<close>

definition stringify :: "string meth" where
  "stringify b = returns (concat (map sel_value (selectors b))) b"

text \<open>
  \<^verbatim>\<open>combine\<close> renders its two arguments first (the template literal is the argument of
  \<^verbatim>\<open>push\<close>), then pushes one entry without a \<^verbatim>\<open>type\<close>. The arguments are builders, given
  by their state at the call; an argument that is the receiver itself is the receiver's
  state before the push.
\<close>

definition combine :: "CssSelectorBuilder \<Rightarrow> string \<Rightarrow> CssSelectorBuilder \<Rightarrow> unit meth" where
  "combine selector1 combinator selector2 =
     (case (fst (stringify selector1), fst (stringify selector2)) of
        (Inr s1, Inr s2) \<Rightarrow>
          seq (push \<lparr>sel_type = None, sel_value = s1 @ '' '' @ combinator @ '' '' @ s2\<rparr>)
            (returns ())
      | (Inl e, _) \<Rightarrow> throw e
      | (_, Inl e) \<Rightarrow> throw e)"

subsection \<open>The facade\<close>

text \<open>
  Each entry point of \<^verbatim>\<open>cssSelectorBuilder\<close> is \<^verbatim>\<open>new CssSelectorBuilder().m(...)\<close>: the
  method on a fresh builder. The caller gets the builder when the method returns.
\<close>

definition on_new :: "unit meth \<Rightarrow> error + CssSelectorBuilder" where
  "on_new m = (case m new_CssSelectorBuilder of (Inl e, b) \<Rightarrow> Inl e | (Inr u, b) \<Rightarrow> Inr b)"

definition cssSelectorBuilder_element :: "string \<Rightarrow> error + CssSelectorBuilder" where
  "cssSelectorBuilder_element v = on_new (element v)"

definition cssSelectorBuilder_id :: "string \<Rightarrow> error + CssSelectorBuilder" where
  "cssSelectorBuilder_id v = on_new (id_sel v)"

definition cssSelectorBuilder_class :: "string \<Rightarrow> error + CssSelectorBuilder" where
  "cssSelectorBuilder_class v = on_new (class_sel v)"

definition cssSelectorBuilder_attr :: "string \<Rightarrow> error + CssSelectorBuilder" where
  "cssSelectorBuilder_attr v = on_new (attr v)"

definition cssSelectorBuilder_pseudoClass :: "string \<Rightarrow> error + CssSelectorBuilder" where
  "cssSelectorBuilder_pseudoClass v = on_new (pseudoClass v)"

definition cssSelectorBuilder_pseudoElement :: "string \<Rightarrow> error + CssSelectorBuilder" where
  "cssSelectorBuilder_pseudoElement v = on_new (pseudoElement v)"

definition cssSelectorBuilder_combine ::
  "CssSelectorBuilder \<Rightarrow> string \<Rightarrow> CssSelectorBuilder \<Rightarrow> error + CssSelectorBuilder" where
  "cssSelectorBuilder_combine selector1 combinator selector2 =
     on_new (combine selector1 combinator selector2)"

subsection \<open>Chains of calls\<close>

text \<open>A fragment-appending call, and a chain \<^verbatim>\<open>b.m1(v1).m2(v2)...\<close> of them.\<close>

datatype call =
  Element string | Id string | Class string | Attr string | PseudoClass string
  | PseudoElement string

fun invoke :: "call \<Rightarrow> unit meth" where
  "invoke (Element v) = element v"
| "invoke (Id v) = id_sel v"
| "invoke (Class v) = class_sel v"
| "invoke (Attr v) = attr v"
| "invoke (PseudoClass v) = pseudoClass v"
| "invoke (PseudoElement v) = pseudoElement v"

fun chain :: "call list \<Rightarrow> unit meth" where
  "chain [] = returns ()"
| "chain (c # cs) = seq (invoke c) (chain cs)"

text \<open>The kind of a call is the \<^verbatim>\<open>type\<close> string its method uses.\<close>

fun kind :: "call \<Rightarrow> string" where
  "kind (Element v) = ''element''"
| "kind (Id v) = ''id''"
| "kind (Class v) = ''class''"
| "kind (Attr v) = ''attr''"
| "kind (PseudoClass v) = ''pseudoClass''"
| "kind (PseudoElement v) = ''pseudoElement''"

text \<open>
  The spec's side: the kind-rank of section 3 (Element=0, ..., PseudoElement=5) and the
  rendered forms of the table in section 4.1.
\<close>

fun kind_rank :: "call \<Rightarrow> nat" where
  "kind_rank (Element v) = 0"
| "kind_rank (Id v) = 1"
| "kind_rank (Class v) = 2"
| "kind_rank (Attr v) = 3"
| "kind_rank (PseudoClass v) = 4"
| "kind_rank (PseudoElement v) = 5"

fun rendered_form :: "call \<Rightarrow> string" where
  "rendered_form (Element v) = v"
| "rendered_form (Id v) = ''#'' @ v"
| "rendered_form (Class v) = ''.'' @ v"
| "rendered_form (Attr v) = ''['' @ v @ '']''"
| "rendered_form (PseudoClass v) = '':'' @ v"
| "rendered_form (PseudoElement v) = ''::'' @ v"

text \<open>The kinds limited to one occurrence (section 4.1), and how often a chain has one.\<close>

definition limited_kinds :: "string list" where
  "limited_kinds = [''element'', ''id'', ''pseudoElement'']"

definition occurrences :: "string \<Rightarrow> call list \<Rightarrow> nat" where
  "occurrences k cs = length (filter (\<lambda>c. kind c = k) cs)"

definition count_type :: "string \<Rightarrow> CssSelectorBuilder \<Rightarrow> nat" where
  "count_type k b = length (filter (\<lambda>s. sel_type s = Some k) (selectors b))"

text \<open>What a call pushes, in the spec's words: its kind and its rendered form.\<close>

definition entry :: "call \<Rightarrow> selector" where
  "entry c = \<lparr>sel_type = Some (kind c), sel_value = rendered_form c\<rparr>"

subsection \<open>Sessions of public operations\<close>

text \<open>
  A public operation is a fragment-appending call or \<^verbatim>\<open>combine\<close>. A caller gets a builder
  from an entry point of the facade and goes on calling methods on it; \<open>session p ps\<close> is
  the builder after the facade's \<open>p\<close> and the methods \<open>ps\<close>, when each of them returned.
  (A call that throws leaves the builder as it was, so a caller who catches the error and
  goes on reaches no other state.)
\<close>

datatype op = Call call | Combine CssSelectorBuilder string CssSelectorBuilder

fun apply_op :: "op \<Rightarrow> unit meth" where
  "apply_op (Call c) = invoke c"
| "apply_op (Combine selector1 combinator selector2) = combine selector1 combinator selector2"

fun run :: "op list \<Rightarrow> unit meth" where
  "run [] = returns ()"
| "run (p # ps) = seq (apply_op p) (run ps)"

fun cssSelectorBuilder_op :: "op \<Rightarrow> error + CssSelectorBuilder" where
  "cssSelectorBuilder_op (Call (Element v)) = cssSelectorBuilder_element v"
| "cssSelectorBuilder_op (Call (Id v)) = cssSelectorBuilder_id v"
| "cssSelectorBuilder_op (Call (Class v)) = cssSelectorBuilder_class v"
| "cssSelectorBuilder_op (Call (Attr v)) = cssSelectorBuilder_attr v"
| "cssSelectorBuilder_op (Call (PseudoClass v)) = cssSelectorBuilder_pseudoClass v"
| "cssSelectorBuilder_op (Call (PseudoElement v)) = cssSelectorBuilder_pseudoElement v"
| "cssSelectorBuilder_op (Combine selector1 combinator selector2) =
     cssSelectorBuilder_combine selector1 combinator selector2"

definition session :: "op \<Rightarrow> op list \<Rightarrow> error + CssSelectorBuilder" where
  "session p ps =
     (case cssSelectorBuilder_op p of
        Inl e \<Rightarrow> Inl e
      | Inr b \<Rightarrow> (case run ps b of (Inl e, b') \<Rightarrow> Inl e | (Inr u, b') \<Rightarrow> Inr b'))"

definition at_most_once :: "CssSelectorBuilder \<Rightarrow> bool" where
  "at_most_once b = list_all (\<lambda>k. count_type k b \<le> 1) limited_kinds"

section \<open>Rectangle, getJSON and fromJSON\<close>

subsection \<open>Values\<close>

text \<open>
  \<^verbatim>\<open>getJSON\<close> and \<^verbatim>\<open>fromJSON\<close> are one call each into the built-in \<^verbatim>\<open>JSON\<close> and \<^verbatim>\<open>Object\<close>
  functions of the language, which are no code of the repository. They are modelled here
  on the values that JSON text denotes, with these limits: a number is an integer in
  the range where JavaScript's numbers are exact (up to \<^verbatim>\<open>Number.MAX_SAFE_INTEGER\<close> in
  absolute value), a string is a list of characters with no escape sequence in its
  text, and the entries of an object are its own properties in property order. Outside
  these limits the functions below answer \<open>NotModelled\<close>.
\<close>

datatype json =
  JNull | JBool bool | JNumber int | JString string | JArray "json list"
  | JObject "(string \<times> json) list"

definition MAX_SAFE_INTEGER :: int where
  "MAX_SAFE_INTEGER = 9007199254740991"

definition is_safe :: "int \<Rightarrow> bool" where
  "is_safe n = (- MAX_SAFE_INTEGER \<le> n \<and> n \<le> MAX_SAFE_INTEGER)"

subsection \<open>JSON.stringify\<close>

text \<open>The decimal text of a number.\<close>

definition digit_char :: "nat \<Rightarrow> char" where
  "digit_char d = ''0123456789'' ! d"

fun decimal :: "nat \<Rightarrow> string" where
  "decimal n = (if n < 10 then [digit_char n] else decimal (n div 10) @ [digit_char (n mod 10)])"

declare decimal.simps [simp del]

definition number_text :: "int \<Rightarrow> string" where
  "number_text n = (if n < 0 then ''-'' @ decimal (nat (- n)) else decimal (nat n))"

text \<open>
  A string is written between double quotes. A double quote, a backslash or a control
  character in it would be written as an escape sequence: not modelled.
\<close>

definition needs_escape :: "char \<Rightarrow> bool" where
  "needs_escape c = (c = CHR 0x22 \<or> c = CHR 0x5C \<or> (of_char c :: nat) < 0x20)"

definition quote :: "string \<Rightarrow> error + string" where
  "quote s = (if list_ex needs_escape s then Inl NotModelled else Inr ([CHR 0x22] @ s @ [CHR 0x22]))"

text \<open>\<^verbatim>\<open>JSON.stringify(value)\<close> with no replacer and no indentation.\<close>

definition join :: "string \<Rightarrow> string list \<Rightarrow> string" where
  "join sep ss = (case ss of [] \<Rightarrow> [] | s # r \<Rightarrow> s @ concat (map (\<lambda>t. sep @ t) r))"

fun JSON_stringify :: "json \<Rightarrow> error + string"
  and stringify_elements :: "json list \<Rightarrow> error + string list"
  and stringify_members :: "(string \<times> json) list \<Rightarrow> error + string list" where
  "JSON_stringify JNull = Inr ''null''"
| "JSON_stringify (JBool b) = Inr (if b then ''true'' else ''false'')"
| "JSON_stringify (JNumber n) = (if is_safe n then Inr (number_text n) else Inl NotModelled)"
| "JSON_stringify (JString s) = quote s"
| "JSON_stringify (JArray vs) =
     (case stringify_elements vs of Inl e \<Rightarrow> Inl e | Inr ss \<Rightarrow> Inr (''['' @ join '','' ss @ '']''))"
| "JSON_stringify (JObject kvs) =
     (case stringify_members kvs of Inl e \<Rightarrow> Inl e | Inr ss \<Rightarrow> Inr (''{'' @ join '','' ss @ ''}''))"
| "stringify_elements [] = Inr []"
| "stringify_elements (v # vs) =
     (case JSON_stringify v of Inl e \<Rightarrow> Inl e
      | Inr s \<Rightarrow> (case stringify_elements vs of Inl e \<Rightarrow> Inl e | Inr ss \<Rightarrow> Inr (s # ss)))"
| "stringify_members [] = Inr []"
| "stringify_members ((k, v) # kvs) =
     (case quote k of Inl e \<Rightarrow> Inl e
      | Inr q \<Rightarrow>
        (case JSON_stringify v of Inl e \<Rightarrow> Inl e
         | Inr s \<Rightarrow>
           (case stringify_members kvs of Inl e \<Rightarrow> Inl e | Inr ss \<Rightarrow> Inr ((q @ '':'' @ s) # ss))))"

subsection \<open>JSON.parse\<close>

text \<open>
  The grammar of JSON text: white space is space, tab, line feed and carriage return; a
  number is an optional minus sign and \<^verbatim>\<open>0\<close> or a digit sequence that does not start with
  \<^verbatim>\<open>0\<close> (a fraction or an exponent after it is not modelled, nor is \<^verbatim>\<open>-0\<close>); a string runs
  to the next double quote and holds no control character (an escape sequence is not
  modelled).
\<close>

definition is_ws :: "char \<Rightarrow> bool" where
  "is_ws c = (c = CHR '' '' \<or> c = CHR 0x09 \<or> c = CHR 0x0A \<or> c = CHR 0x0D)"

definition skip_ws :: "string \<Rightarrow> string" where
  "skip_ws s = dropWhile is_ws s"

definition is_digit :: "char \<Rightarrow> bool" where
  "is_digit c = (c \<in> set ''0123456789'')"

definition digit_value :: "char \<Rightarrow> nat" where
  "digit_value c = of_char c - 48"

definition decimal_value :: "string \<Rightarrow> nat" where
  "decimal_value ds = foldl (\<lambda>n c. 10 * n + digit_value c) 0 ds"

fun parse_string :: "string \<Rightarrow> error + (string \<times> string)" where
  "parse_string [] = Inl SyntaxError"
| "parse_string (c # r) =
     (if c = CHR 0x22 then Inr ([], r)
      else if c = CHR 0x5C then Inl NotModelled
      else if (of_char c :: nat) < 0x20 then Inl SyntaxError
      else (case parse_string r of Inl e \<Rightarrow> Inl e | Inr (str, r') \<Rightarrow> Inr (c # str, r')))"

definition parse_number :: "string \<Rightarrow> error + (json \<times> string)" where
  "parse_number s =
     (let negative = (s \<noteq> [] \<and> hd s = CHR ''-'');
          t = (if negative then tl s else s);
          ds = (if t \<noteq> [] \<and> hd t = CHR ''0'' then ''0'' else takeWhile is_digit t);
          r = drop (length ds) t;
          n = int (decimal_value ds)
      in if ds = [] then Inl SyntaxError
         else if r \<noteq> [] \<and> hd r \<in> set ''.eE'' then Inl NotModelled
         else if negative \<and> n = 0 then Inl NotModelled
         else if \<not> is_safe n then Inl NotModelled
         else Inr (JNumber (if negative then - n else n), r))"

definition parse_literal :: "string \<Rightarrow> error + (json \<times> string)" where
  "parse_literal s =
     (if take 4 s = ''null'' then Inr (JNull, drop 4 s)
      else if take 4 s = ''true'' then Inr (JBool True, drop 4 s)
      else if take 5 s = ''false'' then Inr (JBool False, drop 5 s)
      else Inl SyntaxError)"

text \<open>
  The parser creates each property of an object as it reads it: a key read again gets
  the later value and keeps its place; a key that is an array index stands before the
  other keys, in ascending numeric order; any other key is added at the end.
\<close>

definition is_array_index :: "string \<Rightarrow> bool" where
  "is_array_index k =
     (k \<noteq> [] \<and> list_all is_digit k \<and> (k = ''0'' \<or> hd k \<noteq> CHR ''0'') \<and>
      decimal_value k < 4294967295)"

fun insert_index :: "string \<Rightarrow> json \<Rightarrow> (string \<times> json) list \<Rightarrow> (string \<times> json) list" where
  "insert_index k v [] = [(k, v)]"
| "insert_index k v ((k', v') # r) =
     (if is_array_index k' \<and> decimal_value k' < decimal_value k
      then (k', v') # insert_index k v r else (k, v) # (k', v') # r)"

definition define_property :: "(string \<times> json) list \<Rightarrow> string \<Rightarrow> json \<Rightarrow> (string \<times> json) list" where
  "define_property kvs k v =
     (if k \<in> set (map fst kvs) then map (\<lambda>(k', v'). if k' = k then (k', v) else (k', v')) kvs
      else if is_array_index k then insert_index k v kvs
      else kvs @ [(k, v)])"

text \<open>
  The recursive descent. The first argument bounds the number of nested calls; running
  out of it answers \<open>NotModelled\<close>. With the bound that \<open>JSON_parse\<close> gives, no larger
  bound changes the answer (\<open>JSON_parse_bound\<close> below). \<open>parse_elements\<close> reads the
  elements of an array after its \<^verbatim>\<open>[\<close> and the elements read so far, \<open>parse_members\<close> the
  members of an object.
\<close>

fun parse_value :: "nat \<Rightarrow> string \<Rightarrow> error + (json \<times> string)"
  and parse_elements :: "nat \<Rightarrow> json list \<Rightarrow> string \<Rightarrow> error + (json \<times> string)"
  and parse_members :: "nat \<Rightarrow> (string \<times> json) list \<Rightarrow> string \<Rightarrow> error + (json \<times> string)" where
  "parse_value 0 s = Inl NotModelled"
| "parse_value (Suc n) s =
     (case skip_ws s of
        [] \<Rightarrow> Inl SyntaxError
      | c # r \<Rightarrow>
          if c = CHR ''{'' then
            (case skip_ws r of
               [] \<Rightarrow> Inl SyntaxError
             | c' # r' \<Rightarrow> if c' = CHR ''}'' then Inr (JObject [], r') else parse_members n [] r)
          else if c = CHR ''['' then
            (case skip_ws r of
               [] \<Rightarrow> Inl SyntaxError
             | c' # r' \<Rightarrow> if c' = CHR '']'' then Inr (JArray [], r') else parse_elements n [] r)
          else if c = CHR 0x22 then
            (case parse_string r of Inl e \<Rightarrow> Inl e | Inr (str, r') \<Rightarrow> Inr (JString str, r'))
          else if c = CHR ''-'' \<or> is_digit c then parse_number (c # r)
          else parse_literal (c # r))"
| "parse_elements 0 vs s = Inl NotModelled"
| "parse_elements (Suc n) vs s =
     (case parse_value n s of
        Inl e \<Rightarrow> Inl e
      | Inr (v, r) \<Rightarrow>
          (case skip_ws r of
             [] \<Rightarrow> Inl SyntaxError
           | c # r' \<Rightarrow>
               if c = CHR '','' then parse_elements n (vs @ [v]) r'
               else if c = CHR '']'' then Inr (JArray (vs @ [v]), r')
               else Inl SyntaxError))"
| "parse_members 0 kvs s = Inl NotModelled"
| "parse_members (Suc n) kvs s =
     (case skip_ws s of
        [] \<Rightarrow> Inl SyntaxError
      | q # r \<Rightarrow>
          if q \<noteq> CHR 0x22 then Inl SyntaxError
          else
            (case parse_string r of
               Inl e \<Rightarrow> Inl e
             | Inr (k, r1) \<Rightarrow>
                 (case skip_ws r1 of
                    [] \<Rightarrow> Inl SyntaxError
                  | c # r2 \<Rightarrow>
                      if c \<noteq> CHR '':'' then Inl SyntaxError
                      else
                        (case parse_value n r2 of
                           Inl e \<Rightarrow> Inl e
                         | Inr (v, r3) \<Rightarrow>
                             (case skip_ws r3 of
                                [] \<Rightarrow> Inl SyntaxError
                              | c' # r4 \<Rightarrow>
                                  if c' = CHR '','' then parse_members n (define_property kvs k v) r4
                                  else if c' = CHR ''}'' then Inr (JObject (define_property kvs k v), r4)
                                  else Inl SyntaxError)))))"

text \<open>\<^verbatim>\<open>JSON.parse(text)\<close> with no reviver: one value, and only white space after it.\<close>

definition JSON_parse :: "string \<Rightarrow> error + json" where
  "JSON_parse text =
     (case parse_value (2 * length text + 2) text of
        Inl e \<Rightarrow> Inl e
      | Inr (v, r) \<Rightarrow> if skip_ws r = [] then Inr v else Inl SyntaxError)"

subsection \<open>Objects, Object.getOwnPropertyDescriptors and Object.create\<close>

text \<open>A property descriptor of a data property, and the own properties of an object.\<close>

record descriptor =
  desc_value :: json
  desc_writable :: bool
  desc_enumerable :: bool
  desc_configurable :: bool

type_synonym properties = "(string \<times> descriptor) list"

definition data_property :: "json \<Rightarrow> descriptor" where
  "data_property v =
     \<lparr>desc_value = v, desc_writable = True, desc_enumerable = True, desc_configurable = True\<rparr>"

definition index_keys :: "nat \<Rightarrow> string list" where
  "index_keys n = map decimal [0..<n]"

text \<open>
  \<^verbatim>\<open>Object.getOwnPropertyDescriptors(value)\<close> converts its argument to an object first:
  \<^verbatim>\<open>null\<close> cannot be converted (a TypeError); a boolean or a number becomes a wrapper
  object with no own property; a string becomes a wrapper whose own properties are its
  characters by index and \<^verbatim>\<open>length\<close>, none of them writable; an array has its elements by
  index and \<^verbatim>\<open>length\<close>. A string is taken character by character only when it is ASCII.
\<close>

fun Object_getOwnPropertyDescriptors :: "json \<Rightarrow> error + properties" where
  "Object_getOwnPropertyDescriptors JNull = Inl TypeError"
| "Object_getOwnPropertyDescriptors (JBool b) = Inr []"
| "Object_getOwnPropertyDescriptors (JNumber n) = Inr []"
| "Object_getOwnPropertyDescriptors (JString s) =
     (if list_ex (\<lambda>c. 128 \<le> (of_char c :: nat)) s then Inl NotModelled
      else Inr (zip (index_keys (length s))
                  (map (\<lambda>c. \<lparr>desc_value = JString [c], desc_writable = False,
                              desc_enumerable = True, desc_configurable = False\<rparr>) s) @
                [(''length'', \<lparr>desc_value = JNumber (int (length s)), desc_writable = False,
                              desc_enumerable = False, desc_configurable = False\<rparr>)]))"
| "Object_getOwnPropertyDescriptors (JArray vs) =
     Inr (zip (index_keys (length vs)) (map data_property vs) @
          [(''length'', \<lparr>desc_value = JNumber (int (length vs)), desc_writable = True,
                        desc_enumerable = False, desc_configurable = False\<rparr>)])"
| "Object_getOwnPropertyDescriptors (JObject kvs) = Inr (map (\<lambda>(k, v). (k, data_property v)) kvs)"

text \<open>
  An object is its prototype and its own properties. \<^verbatim>\<open>Object.create(proto, descriptors)\<close>
  makes a new object with that prototype and defines every described property on it.
  The prototype is an object by its type here, so the call does not throw.
\<close>

record 'p js_object =
  obj_proto :: 'p
  obj_props :: properties

definition Object_create :: "'p \<Rightarrow> properties \<Rightarrow> error + 'p js_object" where
  "Object_create proto props = Inr \<lparr>obj_proto = proto, obj_props = props\<rparr>"

subsection \<open>The functions of the repository\<close>

definition getJSON :: "json \<Rightarrow> error + string" where
  "getJSON obj = JSON_stringify obj"

definition fromJSON :: "'p \<Rightarrow> string \<Rightarrow> error + 'p js_object" where
  "fromJSON proto json =
     (case JSON_parse json of
        Inl e \<Rightarrow> Inl e
      | Inr parsed \<Rightarrow>
          (case Object_getOwnPropertyDescriptors parsed of
             Inl e \<Rightarrow> Inl e
           | Inr descriptors \<Rightarrow> Object_create proto descriptors))"

text \<open>
  Reading \<^verbatim>\<open>this.height\<close> in a method of \<^verbatim>\<open>Rectangle.prototype\<close>: the own property of that
  name, or \<^verbatim>\<open>undefined\<close> (\<open>None\<close>), since neither \<^verbatim>\<open>Rectangle.prototype\<close> nor
  \<^verbatim>\<open>Object.prototype\<close> has a property \<^verbatim>\<open>height\<close> or \<^verbatim>\<open>width\<close>.
\<close>

definition property_value :: "properties \<Rightarrow> string \<Rightarrow> json option" where
  "property_value props name = map_option desc_value (map_of props name)"

text \<open>
  The operator \<^verbatim>\<open>*\<close> on two numbers whose product is exact. A zero product with a
  negative operand is \<^verbatim>\<open>-0\<close> in JavaScript, which an integer cannot hold: not modelled.
  Any other operand is converted to a number first, which is not modelled either.
\<close>

fun js_multiply :: "json option \<Rightarrow> json option \<Rightarrow> error + int" where
  "js_multiply (Some (JNumber a)) (Some (JNumber b)) =
     (if a * b = 0 \<and> (a < 0 \<or> b < 0) then Inl NotModelled
      else if is_safe (a * b) then Inr (a * b)
      else Inl NotModelled)"
| "js_multiply _ _ = Inl NotModelled"

text \<open>
  \<^verbatim>\<open>getArea() { return this.height * this.width; }\<close>, as a function of the own
  properties of \<^verbatim>\<open>this\<close>. \<^verbatim>\<open>Rectangle.prototype\<close> is an object literal with this one method.
\<close>

definition getArea :: "properties \<Rightarrow> error + int" where
  "getArea this = js_multiply (property_value this ''height'') (property_value this ''width'')"

record prototype =
  methods :: "(string \<times> (properties \<Rightarrow> error + int)) list"

definition Rectangle_prototype :: prototype where
  "Rectangle_prototype = \<lparr>methods = [(''getArea'', getArea)]\<rparr>"

text \<open>\<^verbatim>\<open>new Rectangle(width, height)\<close>: the assignments create \<^verbatim>\<open>width\<close>, then \<^verbatim>\<open>height\<close>.\<close>

definition Rectangle :: "json \<Rightarrow> json \<Rightarrow> prototype js_object" where
  "Rectangle width height =
     \<lparr>obj_proto = Rectangle_prototype,
      obj_props = [(''width'', data_property width), (''height'', data_property height)]\<rparr>"

text \<open>
  The call \<^verbatim>\<open>obj.name()\<close>. An own property of that name comes first, and the own
  properties here hold JSON values, none of which can be called (a TypeError). Otherwise
  the method is looked up in the prototype; a name the prototype does not have would be
  looked up in \<^verbatim>\<open>Object.prototype\<close>, which is not modelled.
\<close>

definition call_method :: "prototype js_object \<Rightarrow> string \<Rightarrow> error + int" where
  "call_method obj name =
     (case map_of (obj_props obj) name of
        Some d \<Rightarrow> Inl TypeError
      | None \<Rightarrow>
          (case map_of (methods (obj_proto obj)) name of
             Some m \<Rightarrow> m (obj_props obj)
           | None \<Rightarrow> Inl NotModelled))"


section \<open>Properties of the selector builder\<close>

subsection \<open>Auxiliary facts\<close>

lemma errors_distinct: "OrderViolation \<noteq> DuplicateSelector"
  by (simp add: OrderViolation_def DuplicateSelector_def)

lemma order_kind: "order (Some (kind c)) = Some (kind_rank c)"
  by (cases c) (simp_all add: order_def order_table_def)

lemma order_None: "order None = None"
  by (simp add: order_def order_table_def)

lemma seq_returns: "m b = (Inr (), b') \<Longrightarrow> seq m k b = k b'"
  by (simp add: seq_def)

lemma seq_throws: "m b = (Inl e, b') \<Longrightarrow> seq m k b = (Inl e, b')"
  by (simp add: seq_def)

lemma seq_push: "seq (push s) (returns ()) b = (Inr (), b\<lparr>selectors := selectors b @ [s]\<rparr>)"
  by (simp add: seq_def push_def returns_def)

lemma invoke_eq: "invoke c = seq (checkOrder (kind c))
   (if kind c \<in> set limited_kinds then seq (checkCount (kind c)) (seq (push (entry c)) (returns ()))
    else seq (push (entry c)) (returns ()))"
  by (cases c) (simp_all add: element_def id_sel_def class_sel_def attr_def pseudoClass_def
      pseudoElement_def limited_kinds_def entry_def)

lemma checkOrder_cases: "checkOrder t b = (Inr (), b) \<or> checkOrder t b = (Inl OrderViolation, b)"
  by (simp add: checkOrder_def Let_def returns_def throw_def)

lemma checkCount_cases: "checkCount t b = (Inr (), b) \<or> checkCount t b = (Inl DuplicateSelector, b)"
  by (simp add: checkCount_def Let_def returns_def throw_def)

lemma checkCount_iff: "checkCount t b = (Inr (), b) \<longleftrightarrow> count_type t b = 0"
  by (auto simp: checkCount_def Let_def returns_def throw_def count_type_def list_ex_iff filter_empty_conv)

lemma checkCount_throws_iff: "checkCount t b = (Inl DuplicateSelector, b) \<longleftrightarrow> 0 < count_type t b"
  using checkCount_iff [of t b] checkCount_cases [of t b] by auto

lemma checkOrder_empty: "selectors b = [] \<Longrightarrow> checkOrder t b = (Inr (), b)"
  by (simp add: checkOrder_def returns_def)

lemma checkOrder_last:
  "selectors b \<noteq> [] \<Longrightarrow>
   checkOrder t b =
     (if js_gt (order (sel_type (last (selectors b)))) (order (Some t))
      then (Inl OrderViolation, b) else (Inr (), b))"
  by (simp add: checkOrder_def Let_def returns_def throw_def)

lemma order_le_5: "order key = Some n \<Longrightarrow> n \<le> 5"
  by (auto simp: order_def order_table_def split: option.splits if_splits)

lemma checkOrder_pseudoElement: "checkOrder ''pseudoElement'' b = (Inr (), b)"
proof (cases "selectors b = []")
  case True
  then show ?thesis by (rule checkOrder_empty)
next
  case False
  have "\<not> js_gt (order (sel_type (last (selectors b)))) (Some 5)"
    using order_le_5 [of "sel_type (last (selectors b))"]
    by (cases "order (sel_type (last (selectors b)))") auto
  moreover have "order (Some ''pseudoElement'') = Some 5"
    by (simp add: order_def order_table_def)
  ultimately show ?thesis
    using False by (simp add: checkOrder_last)
qed

lemma checkOrder_after_kind:
  assumes "selectors b \<noteq> []" and "sel_type (last (selectors b)) = Some (kind d)"
  shows "checkOrder (kind c) b =
    (if kind_rank c < kind_rank d then (Inl OrderViolation, b) else (Inr (), b))"
  using assms by (simp add: checkOrder_last order_kind)

lemma checkOrder_after_combined:
  assumes "selectors b \<noteq> []" and "sel_type (last (selectors b)) = None"
  shows "checkOrder t b = (Inr (), b)"
  using assms by (simp add: checkOrder_last order_None)

lemma count_type_nonempty: "0 < count_type k b \<Longrightarrow> selectors b \<noteq> []"
  by (auto simp: count_type_def)

lemma invoke_throws_order:
  "checkOrder (kind c) b = (Inl e, b') \<Longrightarrow> invoke c b = (Inl e, b')"
  by (simp add: invoke_eq seq_throws)

lemma invoke_throws_count:
  assumes "checkOrder (kind c) b = (Inr (), b)" and "kind c \<in> set limited_kinds"
    and "0 < count_type (kind c) b"
  shows "invoke c b = (Inl DuplicateSelector, b)"
proof -
  have "checkCount (kind c) b = (Inl DuplicateSelector, b)"
    using assms(3) by (simp add: checkCount_throws_iff)
  then show ?thesis
    using assms(1,2) by (simp add: invoke_eq seq_returns seq_throws)
qed

lemma invoke_returns:
  assumes "checkOrder (kind c) b = (Inr (), b)"
    and "kind c \<in> set limited_kinds \<Longrightarrow> count_type (kind c) b = 0"
  shows "invoke c b = (Inr (), b\<lparr>selectors := selectors b @ [entry c]\<rparr>)"
proof (cases "kind c \<in> set limited_kinds")
  case True
  then have "checkCount (kind c) b = (Inr (), b)"
    using assms(2) by (simp add: checkCount_iff)
  then show ?thesis
    using assms(1) True by (simp add: invoke_eq seq_returns seq_push)
next
  case False
  then show ?thesis
    using assms(1) by (simp add: invoke_eq seq_returns seq_push)
qed

lemma invoke_cases:
  "invoke c b = (Inr (), b\<lparr>selectors := selectors b @ [entry c]\<rparr>) \<or>
   invoke c b = (Inl OrderViolation, b) \<or> invoke c b = (Inl DuplicateSelector, b)"
proof -
  consider (bad) "checkOrder (kind c) b = (Inl OrderViolation, b)"
    | (dup) "checkOrder (kind c) b = (Inr (), b)" "kind c \<in> set limited_kinds" "0 < count_type (kind c) b"
    | (ok) "checkOrder (kind c) b = (Inr (), b)" "kind c \<in> set limited_kinds \<Longrightarrow> count_type (kind c) b = 0"
    using checkOrder_cases [of "kind c" b] by auto
  then show ?thesis
  proof cases
    case bad then show ?thesis by (simp add: invoke_throws_order)
  next
    case dup then show ?thesis by (simp add: invoke_throws_count)
  next
    case ok then show ?thesis by (simp add: invoke_returns)
  qed
qed

lemma count_type_append:
  "count_type k (b\<lparr>selectors := selectors b @ [s]\<rparr>) =
     count_type k b + (if sel_type s = Some k then 1 else 0)"
  by (simp add: count_type_def)

lemma chain_returns:
  assumes "sorted (map kind_rank cs)"
    and "\<forall>k\<in>set limited_kinds. occurrences k cs + count_type k b \<le> 1"
    and "cs \<noteq> [] \<Longrightarrow> checkOrder (kind (hd cs)) b = (Inr (), b)"
  shows "chain cs b = (Inr (), b\<lparr>selectors := selectors b @ map entry cs\<rparr>)"
  using assms
proof (induction cs arbitrary: b)
  case Nil
  then show ?case by (simp add: returns_def)
next
  case (Cons c cs)
  let ?b = "b\<lparr>selectors := selectors b @ [entry c]\<rparr>"
  have ord: "checkOrder (kind c) b = (Inr (), b)"
    using Cons.prems(3) by simp
  have cnt: "count_type (kind c) b = 0" if "kind c \<in> set limited_kinds"
    using Cons.prems(2) that by (auto simp: occurrences_def)
  have step: "invoke c b = (Inr (), ?b)"
    using ord cnt by (rule invoke_returns)
  have s: "sorted (map kind_rank cs)"
    using Cons.prems(1) by simp
  have l: "\<forall>k\<in>set limited_kinds. occurrences k cs + count_type k ?b \<le> 1"
    using Cons.prems(2) by (auto simp: count_type_append occurrences_def entry_def)
  have o: "checkOrder (kind (hd cs)) ?b = (Inr (), ?b)" if "cs \<noteq> []"
  proof -
    from that obtain d ds where cs: "cs = d # ds" by (cases cs) auto
    then have "kind_rank c \<le> kind_rank d"
      using Cons.prems(1) by simp
    then show ?thesis
      by (simp add: cs checkOrder_last entry_def order_kind)
  qed
  have "chain cs ?b = (Inr (), ?b\<lparr>selectors := selectors ?b @ map entry cs\<rparr>)"
    using s l o by (rule Cons.IH)
  then show ?case
    using step by (simp add: seq_returns)
qed

lemma sel_value_entry: "sel_value \<circ> entry = rendered_form"
  by (rule ext) (simp add: entry_def)

lemma stringify_returns: "stringify b = (Inr (concat (map sel_value (selectors b))), b)"
  by (simp add: stringify_def returns_def)

lemma combine_pushes:
  "combine a c b t =
     (Inr (), t\<lparr>selectors := selectors t @
        [\<lparr>sel_type = None,
          sel_value = concat (map sel_value (selectors a)) @ '' '' @ c @ '' '' @
                      concat (map sel_value (selectors b))\<rparr>]\<rparr>)"
  by (simp add: combine_def stringify_returns seq_push)

lemma facade_is_on_new: "cssSelectorBuilder_op p = on_new (apply_op p)"
proof (cases p)
  case (Call c)
  then show ?thesis
    by (cases c) (simp_all add: cssSelectorBuilder_element_def cssSelectorBuilder_id_def
        cssSelectorBuilder_class_def cssSelectorBuilder_attr_def
        cssSelectorBuilder_pseudoClass_def cssSelectorBuilder_pseudoElement_def)
next
  case (Combine a c b)
  then show ?thesis by (simp add: cssSelectorBuilder_combine_def)
qed

lemma invoke_returns_count:
  assumes "invoke c b = (Inr (), b')"
  shows "b' = b\<lparr>selectors := selectors b @ [entry c]\<rparr> \<and>
         (kind c \<in> set limited_kinds \<longrightarrow> count_type (kind c) b = 0)"
proof -
  have b': "b' = b\<lparr>selectors := selectors b @ [entry c]\<rparr>"
    using assms invoke_cases [of c b] by auto
  have ord: "checkOrder (kind c) b = (Inr (), b)"
    using assms checkOrder_cases [of "kind c" b] invoke_throws_order [of c b OrderViolation b]
    by auto
  have "count_type (kind c) b = 0" if "kind c \<in> set limited_kinds"
  proof (rule ccontr)
    assume "count_type (kind c) b \<noteq> 0"
    then have "invoke c b = (Inl DuplicateSelector, b)"
      using ord that by (simp add: invoke_throws_count)
    then show False using assms by simp
  qed
  with b' show ?thesis by simp
qed

lemma at_most_once_iff:
  "at_most_once b \<longleftrightarrow>
     count_type ''element'' b \<le> 1 \<and> count_type ''id'' b \<le> 1 \<and> count_type ''pseudoElement'' b \<le> 1"
  by (simp add: at_most_once_def limited_kinds_def)

lemma apply_op_at_most_once:
  assumes "apply_op p b = (Inr (), b')" and "at_most_once b"
  shows "at_most_once b'"
proof (cases p)
  case (Call c)
  then have "invoke c b = (Inr (), b')" using assms(1) by simp
  then have b': "b' = b\<lparr>selectors := selectors b @ [entry c]\<rparr>"
    and z: "kind c \<in> set limited_kinds \<longrightarrow> count_type (kind c) b = 0"
    using invoke_returns_count by blast+
  show ?thesis
    using assms(2) z unfolding b' at_most_once_iff
    by (auto simp: count_type_append entry_def limited_kinds_def)
next
  case (Combine a c x)
  then have "b' = b\<lparr>selectors := selectors b @
        [\<lparr>sel_type = None,
          sel_value = concat (map sel_value (selectors a)) @ '' '' @ c @ '' '' @
                      concat (map sel_value (selectors x))\<rparr>]\<rparr>"
    using assms(1) by (simp add: combine_pushes)
  then show ?thesis
    using assms(2) by (simp add: at_most_once_iff count_type_append)
qed

lemma run_at_most_once:
  "run ps b = (Inr (), b') \<Longrightarrow> at_most_once b \<Longrightarrow> at_most_once b'"
proof (induction ps arbitrary: b)
  case Nil
  then show ?case by (simp add: returns_def)
next
  case (Cons p ps)
  obtain r b1 where step: "apply_op p b = (r, b1)" by (cases "apply_op p b")
  show ?case
  proof (cases r)
    case (Inl e)
    then show ?thesis using Cons.prems(1) step by (simp add: seq_def)
  next
    case (Inr u)
    then have s: "apply_op p b = (Inr (), b1)" using step by simp
    then have "run ps b1 = (Inr (), b')" using Cons.prems(1) by (simp add: seq_def)
    moreover have "at_most_once b1" using s Cons.prems(2) by (rule apply_op_at_most_once)
    ultimately show ?thesis by (rule Cons.IH)
  qed
qed

lemma session_is_run: "session p ps = on_new (run (p # ps))"
  by (simp add: session_def facade_is_on_new on_new_def seq_def split: prod.splits sum.splits)

text \<open>
  A chain that starts at the facade, \<^verbatim>\<open>cssSelectorBuilder.m1(v1).m2(v2)...\<close>, is the chain
  of the same calls on a fresh builder.
\<close>

lemma run_calls: "run (map Call cs) = chain cs"
  by (induction cs) simp_all

lemma session_of_calls: "session (Call c) (map Call cs) = on_new (chain (c # cs))"
  by (simp add: session_is_run run_calls)

subsection \<open>Chains in kind-rank order\<close>

text \<open>
  C1. A chain of fragment-appending calls on a fresh builder whose kind-ranks never
  decrease and which has at most one \<^verbatim>\<open>element\<close>, one \<^verbatim>\<open>id\<close> and one \<^verbatim>\<open>pseudoElement\<close> call:
  every call returns, the builder holds one entry per call, in call order, and
  \<^verbatim>\<open>stringify()\<close> returns the rendered forms of the spec's table, concatenated in call
  order with nothing between them.
\<close>

theorem chain_in_order_renders:
  assumes "sorted (map kind_rank cs)"
    and "\<forall>k\<in>set limited_kinds. occurrences k cs \<le> 1"
  shows "chain cs new_CssSelectorBuilder = (Inr (), \<lparr>selectors = map entry cs\<rparr>) \<and>
         stringify \<lparr>selectors = map entry cs\<rparr> =
           (Inr (concat (map rendered_form cs)), \<lparr>selectors = map entry cs\<rparr>)"
proof -
  have "\<forall>k\<in>set limited_kinds. occurrences k cs + count_type k new_CssSelectorBuilder \<le> 1"
    using assms(2) by (simp add: count_type_def new_CssSelectorBuilder_def)
  moreover have "checkOrder (kind (hd cs)) new_CssSelectorBuilder = (Inr (), new_CssSelectorBuilder)"
    by (simp add: checkOrder_empty new_CssSelectorBuilder_def)
  ultimately have "chain cs new_CssSelectorBuilder =
      (Inr (), new_CssSelectorBuilder\<lparr>selectors := selectors new_CssSelectorBuilder @ map entry cs\<rparr>)"
    using assms(1) by (intro chain_returns) simp_all
  then show ?thesis
    by (simp add: new_CssSelectorBuilder_def stringify_def returns_def sel_value_entry)
qed

theorem chain_in_order_renders_witness:
  \<open>sorted (map kind_rank [Element ''a'', Attr ''href$=".png"'', PseudoClass ''focus'']) \<and>
   fst (chain [Element ''a'', Attr ''href$=".png"'', PseudoClass ''focus''] new_CssSelectorBuilder) = Inr () \<and>
   fst (stringify (snd (chain [Element ''a'', Attr ''href$=".png"'', PseudoClass ''focus'']
      new_CssSelectorBuilder))) = Inr ''a[href$=".png"]:focus''\<close>
  using chain_in_order_renders [of "[Element ''a'', Attr (''href$='' @ [CHR 0x22] @ ''.png'' @ [CHR 0x22]), PseudoClass ''focus'']"]
  by (simp add: limited_kinds_def occurrences_def)

subsection \<open>A second element, id or pseudo-element\<close>

text \<open>
  C2, as the spec states it, fails: after \<^verbatim>\<open>element('a').class('b')\<close> the builder holds an
  \<^verbatim>\<open>element\<close> entry, and \<^verbatim>\<open>element('c')\<close> throws the order error, not the duplicate error,
  since \<^verbatim>\<open>checkOrder\<close> runs first and the last entry is a \<^verbatim>\<open>class\<close>.
\<close>

theorem second_limited_after_class_counterexample:
  "count_type ''element'' (snd (chain [Element ''a'', Class ''b''] new_CssSelectorBuilder)) = 1 \<and>
   element ''c'' (snd (chain [Element ''a'', Class ''b''] new_CssSelectorBuilder)) =
     (Inl OrderViolation, snd (chain [Element ''a'', Class ''b''] new_CssSelectorBuilder)) \<and>
   OrderViolation \<noteq> DuplicateSelector"
  by (simp add: element_def class_sel_def seq_def checkOrder_def checkCount_def push_def
      returns_def throw_def new_CssSelectorBuilder_def order_def order_table_def count_type_def
      OrderViolation_def DuplicateSelector_def)

text \<open>
  C2, amended. On a builder that already holds an entry of kind \<^verbatim>\<open>element\<close>, \<^verbatim>\<open>id\<close> or
  \<^verbatim>\<open>pseudoElement\<close>, a call \<open>c\<close> of that same kind always throws and leaves the builder as
  it was. Which error it throws is decided by the last entry: the duplicate error when
  the last entry was pushed by \<^verbatim>\<open>combine\<close> (it has no \<^verbatim>\<open>type\<close>) or is of a kind \<open>d\<close> whose
  kind-rank is not above that of \<open>c\<close>, the order error when the kind-rank of \<open>d\<close> is above
  that of \<open>c\<close>. For \<^verbatim>\<open>pseudoElement\<close>, whose rank is the highest, it is always the duplicate
  error. In terms of the code: the duplicate error exactly when the order check passes.
\<close>

theorem second_limited_fails:
  assumes "kind c \<in> set limited_kinds" and "0 < count_type (kind c) b"
  shows "(sel_type (last (selectors b)) = None \<longrightarrow> invoke c b = (Inl DuplicateSelector, b)) \<and>
    (\<forall>d. sel_type (last (selectors b)) = Some (kind d) \<longrightarrow>
       invoke c b =
         (Inl (if kind_rank d \<le> kind_rank c then DuplicateSelector else OrderViolation), b)) \<and>
    (kind c = ''pseudoElement'' \<longrightarrow> invoke c b = (Inl DuplicateSelector, b)) \<and>
    invoke c b =
      (Inl (if checkOrder (kind c) b = (Inr (), b) then DuplicateSelector else OrderViolation), b)"
proof -
  have ne: "selectors b \<noteq> []"
    using assms(2) by (rule count_type_nonempty)
  have dup: "invoke c b = (Inl DuplicateSelector, b)" if "checkOrder (kind c) b = (Inr (), b)"
    using that assms by (simp add: invoke_throws_count)
  have ord: "invoke c b = (Inl OrderViolation, b)" if "checkOrder (kind c) b = (Inl OrderViolation, b)"
    using that by (rule invoke_throws_order)
  have combined: "invoke c b = (Inl DuplicateSelector, b)" if "sel_type (last (selectors b)) = None"
    using ne that by (intro dup checkOrder_after_combined)
  have ranked: "invoke c b =
      (Inl (if kind_rank d \<le> kind_rank c then DuplicateSelector else OrderViolation), b)"
    if "sel_type (last (selectors b)) = Some (kind d)" for d
  proof (cases "kind_rank d \<le> kind_rank c")
    case True
    then have "checkOrder (kind c) b = (Inr (), b)"
      using ne that by (simp add: checkOrder_after_kind)
    then show ?thesis using True by (simp add: dup)
  next
    case False
    then have "checkOrder (kind c) b = (Inl OrderViolation, b)"
      using ne that by (simp add: checkOrder_after_kind)
    then show ?thesis using False by (simp add: ord)
  qed
  have pseudo: "invoke c b = (Inl DuplicateSelector, b)" if "kind c = ''pseudoElement''"
    using that dup by (simp add: checkOrder_pseudoElement)
  have gen: "invoke c b =
      (Inl (if checkOrder (kind c) b = (Inr (), b) then DuplicateSelector else OrderViolation), b)"
  proof (cases "checkOrder (kind c) b = (Inr (), b)")
    case True
    then show ?thesis by (simp add: dup)
  next
    case False
    then have "checkOrder (kind c) b = (Inl OrderViolation, b)"
      using checkOrder_cases [of "kind c" b] by simp
    then show ?thesis using False by (simp add: ord)
  qed
  show ?thesis using combined ranked pseudo gen by blast
qed

theorem second_limited_fails_witness:
  "invoke (Element ''div'') \<lparr>selectors = [\<lparr>sel_type = Some ''element'', sel_value = ''table''\<rparr>]\<rparr> =
     (Inl DuplicateSelector, \<lparr>selectors = [\<lparr>sel_type = Some ''element'', sel_value = ''table''\<rparr>]\<rparr>) \<and>
   invoke (Element ''div'') \<lparr>selectors = [\<lparr>sel_type = Some ''element'', sel_value = ''table''\<rparr>,
       \<lparr>sel_type = Some ''attr'', sel_value = ''[x]''\<rparr>]\<rparr> =
     (Inl OrderViolation, \<lparr>selectors = [\<lparr>sel_type = Some ''element'', sel_value = ''table''\<rparr>,
       \<lparr>sel_type = Some ''attr'', sel_value = ''[x]''\<rparr>]\<rparr>) \<and>
   invoke (Id ''y'') \<lparr>selectors = [\<lparr>sel_type = Some ''id'', sel_value = ''#x''\<rparr>,
       \<lparr>sel_type = Some ''pseudoClass'', sel_value = '':hover''\<rparr>]\<rparr> =
     (Inl OrderViolation, \<lparr>selectors = [\<lparr>sel_type = Some ''id'', sel_value = ''#x''\<rparr>,
       \<lparr>sel_type = Some ''pseudoClass'', sel_value = '':hover''\<rparr>]\<rparr>) \<and>
   invoke (Id ''y'') \<lparr>selectors = [\<lparr>sel_type = Some ''element'', sel_value = ''p''\<rparr>,
       \<lparr>sel_type = Some ''id'', sel_value = ''#x''\<rparr>]\<rparr> =
     (Inl DuplicateSelector, \<lparr>selectors = [\<lparr>sel_type = Some ''element'', sel_value = ''p''\<rparr>,
       \<lparr>sel_type = Some ''id'', sel_value = ''#x''\<rparr>]\<rparr>) \<and>
   invoke (Id ''y'') \<lparr>selectors = [\<lparr>sel_type = Some ''id'', sel_value = ''#x''\<rparr>,
       \<lparr>sel_type = Some ''class'', sel_value = ''.k''\<rparr>,
       \<lparr>sel_type = None, sel_value = ''a > b''\<rparr>]\<rparr> =
     (Inl DuplicateSelector, \<lparr>selectors = [\<lparr>sel_type = Some ''id'', sel_value = ''#x''\<rparr>,
       \<lparr>sel_type = Some ''class'', sel_value = ''.k''\<rparr>,
       \<lparr>sel_type = None, sel_value = ''a > b''\<rparr>]\<rparr>) \<and>
   invoke (PseudoElement ''after'') \<lparr>selectors = [\<lparr>sel_type = Some ''pseudoElement'', sel_value = ''::before''\<rparr>,
       \<lparr>sel_type = None, sel_value = ''a > b''\<rparr>]\<rparr> =
     (Inl DuplicateSelector, \<lparr>selectors = [\<lparr>sel_type = Some ''pseudoElement'', sel_value = ''::before''\<rparr>,
       \<lparr>sel_type = None, sel_value = ''a > b''\<rparr>]\<rparr>)"
proof -
  let ?e1 = "\<lparr>selectors = [\<lparr>sel_type = Some ''element'', sel_value = ''table''\<rparr>]\<rparr>"
  let ?e2 = "\<lparr>selectors = [\<lparr>sel_type = Some ''element'', sel_value = ''table''\<rparr>,
       \<lparr>sel_type = Some ''attr'', sel_value = ''[x]''\<rparr>]\<rparr>"
  let ?i1 = "\<lparr>selectors = [\<lparr>sel_type = Some ''id'', sel_value = ''#x''\<rparr>,
       \<lparr>sel_type = Some ''pseudoClass'', sel_value = '':hover''\<rparr>]\<rparr>"
  let ?i2 = "\<lparr>selectors = [\<lparr>sel_type = Some ''element'', sel_value = ''p''\<rparr>,
       \<lparr>sel_type = Some ''id'', sel_value = ''#x''\<rparr>]\<rparr>"
  let ?i3 = "\<lparr>selectors = [\<lparr>sel_type = Some ''id'', sel_value = ''#x''\<rparr>,
       \<lparr>sel_type = Some ''class'', sel_value = ''.k''\<rparr>,
       \<lparr>sel_type = None, sel_value = ''a > b''\<rparr>]\<rparr>"
  let ?p1 = "\<lparr>selectors = [\<lparr>sel_type = Some ''pseudoElement'', sel_value = ''::before''\<rparr>,
       \<lparr>sel_type = None, sel_value = ''a > b''\<rparr>]\<rparr>"
  have a: "invoke (Element ''div'') ?e1 = (Inl DuplicateSelector, ?e1)"
    using second_limited_fails [of "Element ''div''" ?e1, THEN conjunct2, THEN conjunct1,
        THEN spec, of "Element ''table''"]
    by (simp add: limited_kinds_def count_type_def)
  have b: "invoke (Element ''div'') ?e2 = (Inl OrderViolation, ?e2)"
    using second_limited_fails [of "Element ''div''" ?e2, THEN conjunct2, THEN conjunct1,
        THEN spec, of "Attr ''x''"]
    by (simp add: limited_kinds_def count_type_def)
  have c: "invoke (Id ''y'') ?i1 = (Inl OrderViolation, ?i1)"
    using second_limited_fails [of "Id ''y''" ?i1, THEN conjunct2, THEN conjunct1,
        THEN spec, of "PseudoClass ''hover''"]
    by (simp add: limited_kinds_def count_type_def)
  have d: "invoke (Id ''y'') ?i2 = (Inl DuplicateSelector, ?i2)"
    using second_limited_fails [of "Id ''y''" ?i2, THEN conjunct2, THEN conjunct1,
        THEN spec, of "Id ''x''"]
    by (simp add: limited_kinds_def count_type_def)
  have e: "invoke (Id ''y'') ?i3 = (Inl DuplicateSelector, ?i3)"
    using second_limited_fails [of "Id ''y''" ?i3, THEN conjunct1]
    by (simp add: limited_kinds_def count_type_def)
  have f: "invoke (PseudoElement ''after'') ?p1 = (Inl DuplicateSelector, ?p1)"
    using second_limited_fails [of "PseudoElement ''after''" ?p1, THEN conjunct2, THEN conjunct2,
        THEN conjunct1]
    by (simp add: limited_kinds_def count_type_def)
  show ?thesis using a b c d e f by simp
qed

subsection \<open>The order check\<close>



text \<open>
  C8. On a builder whose last entry was pushed by \<^verbatim>\<open>combine\<close> (it has no \<^verbatim>\<open>type\<close>), the
  order check passes for every \<^verbatim>\<open>type\<close>, and no fragment-appending call throws the order
  error.
\<close>

theorem combined_last_passes_order_check:
  assumes "selectors b \<noteq> []" and "sel_type (last (selectors b)) = None"
  shows "checkOrder type b = (Inr (), b) \<and> fst (invoke c b) \<noteq> Inl OrderViolation"
proof -
  have ord: "checkOrder t b = (Inr (), b)" for t
    using assms by (simp add: checkOrder_last order_None)
  have "invoke c b \<noteq> (Inl OrderViolation, b)"
  proof (cases "kind c \<in> set limited_kinds \<and> 0 < count_type (kind c) b")
    case True
    then have "invoke c b = (Inl DuplicateSelector, b)"
      using ord by (simp add: invoke_throws_count)
    then show ?thesis
      using errors_distinct by simp
  next
    case False
    then have "invoke c b = (Inr (), b\<lparr>selectors := selectors b @ [entry c]\<rparr>)"
      using ord by (intro invoke_returns) auto
    then show ?thesis by simp
  qed
  then have "fst (invoke c b) \<noteq> Inl OrderViolation"
    using invoke_cases [of c b] errors_distinct by auto
  with ord show ?thesis by simp
qed


theorem combined_last_passes_order_check_witness:
  "combine \<lparr>selectors = [\<lparr>sel_type = Some ''element'', sel_value = ''p''\<rparr>]\<rparr> ''+''
      \<lparr>selectors = [\<lparr>sel_type = Some ''id'', sel_value = ''#q''\<rparr>]\<rparr>
      \<lparr>selectors = [\<lparr>sel_type = Some ''pseudoElement'', sel_value = ''::after''\<rparr>]\<rparr> =
     (Inr (), \<lparr>selectors = [\<lparr>sel_type = Some ''pseudoElement'', sel_value = ''::after''\<rparr>,
         \<lparr>sel_type = None, sel_value = ''p + #q''\<rparr>]\<rparr>) \<and>
   checkOrder ''element'' \<lparr>selectors = [\<lparr>sel_type = Some ''pseudoElement'', sel_value = ''::after''\<rparr>,
         \<lparr>sel_type = None, sel_value = ''p + #q''\<rparr>]\<rparr> =
     (Inr (), \<lparr>selectors = [\<lparr>sel_type = Some ''pseudoElement'', sel_value = ''::after''\<rparr>,
         \<lparr>sel_type = None, sel_value = ''p + #q''\<rparr>]\<rparr>) \<and>
   fst (invoke (Element ''div'') \<lparr>selectors = [\<lparr>sel_type = Some ''pseudoElement'', sel_value = ''::after''\<rparr>,
         \<lparr>sel_type = None, sel_value = ''p + #q''\<rparr>]\<rparr>) \<noteq> Inl OrderViolation"
  using combined_last_passes_order_check [of
      "\<lparr>selectors = [\<lparr>sel_type = Some ''pseudoElement'', sel_value = ''::after''\<rparr>,
         \<lparr>sel_type = None, sel_value = ''p + #q''\<rparr>]\<rparr>" "''element''" "Element ''div''"]
  by (simp add: combine_def stringify_def returns_def seq_def push_def)

subsection \<open>Failed calls\<close>

text \<open>
  C6. A fragment-appending call that throws leaves the builder, and so its sequence of
  entries, exactly as it was before the call; the error is the order error or the
  duplicate error.
\<close>

theorem failed_call_keeps_selectors:
  assumes "invoke c b = (Inl e, b')"
  shows "selectors b' = selectors b \<and> b' = b \<and> (e = OrderViolation \<or> e = DuplicateSelector)"
  using assms invoke_cases [of c b] by auto

theorem failed_call_keeps_selectors_witness:
  "invoke (PseudoElement ''after'')
     \<lparr>selectors = [\<lparr>sel_type = Some ''pseudoElement'', sel_value = ''::before''\<rparr>]\<rparr> =
     (Inl DuplicateSelector, \<lparr>selectors = [\<lparr>sel_type = Some ''pseudoElement'', sel_value = ''::before''\<rparr>]\<rparr>) \<and>
   selectors \<lparr>selectors = [\<lparr>sel_type = Some ''pseudoElement'', sel_value = ''::before''\<rparr>]\<rparr> =
     [\<lparr>sel_type = Some ''pseudoElement'', sel_value = ''::before''\<rparr>]"
proof -
  have run: "invoke (PseudoElement ''after'')
     \<lparr>selectors = [\<lparr>sel_type = Some ''pseudoElement'', sel_value = ''::before''\<rparr>]\<rparr> =
     (Inl DuplicateSelector, \<lparr>selectors = [\<lparr>sel_type = Some ''pseudoElement'', sel_value = ''::before''\<rparr>]\<rparr>)"
    by (simp add: pseudoElement_def seq_def checkOrder_def checkCount_def returns_def throw_def
        order_def order_table_def)
  show ?thesis
    using failed_call_keeps_selectors [OF run] run by simp
qed

subsection \<open>combine and stringify\<close>

text \<open>
  C4. With \<open>sa\<close> and \<open>sb\<close> what \<^verbatim>\<open>stringify\<close> returns on the two arguments: on every
  receiver \<open>t\<close> and for every combinator string \<open>c\<close>, \<^verbatim>\<open>combine\<close> returns and has appended
  exactly one entry, without a \<^verbatim>\<open>type\<close>, whose text is \<open>sa\<close>, a space, \<open>c\<close>, a space, \<open>sb\<close>.
  The facade's \<^verbatim>\<open>combine\<close> returns a builder that renders as that text, and that builder
  can be an argument of \<^verbatim>\<open>combine\<close> again.
\<close>

theorem combine_appends_one_fragment:
  "\<exists>sa sb.
     stringify a = (Inr sa, a) \<and> stringify b = (Inr sb, b) \<and>
     combine a c b t =
       (Inr (), t\<lparr>selectors := selectors t @
          [\<lparr>sel_type = None, sel_value = sa @ '' '' @ c @ '' '' @ sb\<rparr>]\<rparr>) \<and>
     (\<exists>r. cssSelectorBuilder_combine a c b = Inr r \<and>
        stringify r = (Inr (sa @ '' '' @ c @ '' '' @ sb), r) \<and>
        (\<exists>sx r'. stringify x = (Inr sx, x) \<and>
           cssSelectorBuilder_combine r c' x = Inr r' \<and>
           stringify r' = (Inr ((sa @ '' '' @ c @ '' '' @ sb) @ '' '' @ c' @ '' '' @ sx), r')))"
  by (simp add: combine_pushes stringify_returns cssSelectorBuilder_combine_def on_new_def
      new_CssSelectorBuilder_def)

text \<open>
  C10. \<^verbatim>\<open>stringify()\<close> returns the concatenation of the entries' texts and leaves the
  builder as it was, so a second call right after it returns the same string.
\<close>

theorem stringify_twice:
  "stringify b = (Inr (concat (map sel_value (selectors b))), b) \<and>
   stringify (snd (stringify b)) = stringify b \<and>
   selectors (snd (stringify b)) = selectors b"
  by (simp add: stringify_def returns_def)

subsection \<open>The cardinality invariant\<close>

text \<open>
  C5. In every builder that a session of public operations yields (an entry point of the
  facade, then any methods, each of which returned), there is at most one entry of kind
  \<^verbatim>\<open>element\<close>, at most one of kind \<^verbatim>\<open>id\<close> and at most one of kind \<^verbatim>\<open>pseudoElement\<close>.
\<close>

theorem limited_kinds_at_most_once:
  assumes "session p ps = Inr b"
  shows "count_type ''element'' b \<le> 1 \<and> count_type ''id'' b \<le> 1 \<and>
         count_type ''pseudoElement'' b \<le> 1"
proof -
  obtain r b0 where first: "apply_op p new_CssSelectorBuilder = (r, b0)"
    by (cases "apply_op p new_CssSelectorBuilder")
  have new: "at_most_once new_CssSelectorBuilder"
    by (simp add: at_most_once_iff count_type_def new_CssSelectorBuilder_def)
  show ?thesis
  proof (cases r)
    case (Inl e)
    then show ?thesis
      using assms first by (simp add: session_def facade_is_on_new on_new_def)
  next
    case (Inr u)
    then have f: "apply_op p new_CssSelectorBuilder = (Inr (), b0)" using first by simp
    then have b0: "at_most_once b0" using new by (rule apply_op_at_most_once)
    have "cssSelectorBuilder_op p = Inr b0"
      using f by (simp add: facade_is_on_new on_new_def)
    then have "run ps b0 = (Inr (), b)"
      using assms by (auto simp: session_def split: sum.splits prod.splits)
    then have "at_most_once b" using b0 by (rule run_at_most_once)
    then show ?thesis by (simp add: at_most_once_iff)
  qed
qed

theorem limited_kinds_at_most_once_witness:
  "session (Call (Element ''div''))
     [Call (Id ''main''),
      Combine \<lparr>selectors = [\<lparr>sel_type = Some ''element'', sel_value = ''p''\<rparr>]\<rparr> ''+''
        \<lparr>selectors = [\<lparr>sel_type = Some ''element'', sel_value = ''q''\<rparr>]\<rparr>,
      Call (Class ''x''), Call (PseudoElement ''after'')] =
     Inr \<lparr>selectors =
        [\<lparr>sel_type = Some ''element'', sel_value = ''div''\<rparr>,
         \<lparr>sel_type = Some ''id'', sel_value = ''#main''\<rparr>,
         \<lparr>sel_type = None, sel_value = ''p + q''\<rparr>,
         \<lparr>sel_type = Some ''class'', sel_value = ''.x''\<rparr>,
         \<lparr>sel_type = Some ''pseudoElement'', sel_value = ''::after''\<rparr>]\<rparr> \<and>
   count_type ''element'' \<lparr>selectors =
        [\<lparr>sel_type = Some ''element'', sel_value = ''div''\<rparr>,
         \<lparr>sel_type = Some ''id'', sel_value = ''#main''\<rparr>,
         \<lparr>sel_type = None, sel_value = ''p + q''\<rparr>,
         \<lparr>sel_type = Some ''class'', sel_value = ''.x''\<rparr>,
         \<lparr>sel_type = Some ''pseudoElement'', sel_value = ''::after''\<rparr>]\<rparr> \<le> 1"
proof -
  have run: "session (Call (Element ''div''))
     [Call (Id ''main''),
      Combine \<lparr>selectors = [\<lparr>sel_type = Some ''element'', sel_value = ''p''\<rparr>]\<rparr> ''+''
        \<lparr>selectors = [\<lparr>sel_type = Some ''element'', sel_value = ''q''\<rparr>]\<rparr>,
      Call (Class ''x''), Call (PseudoElement ''after'')] =
     Inr \<lparr>selectors =
        [\<lparr>sel_type = Some ''element'', sel_value = ''div''\<rparr>,
         \<lparr>sel_type = Some ''id'', sel_value = ''#main''\<rparr>,
         \<lparr>sel_type = None, sel_value = ''p + q''\<rparr>,
         \<lparr>sel_type = Some ''class'', sel_value = ''.x''\<rparr>,
         \<lparr>sel_type = Some ''pseudoElement'', sel_value = ''::after''\<rparr>]\<rparr>"
    by (simp add: session_def cssSelectorBuilder_element_def on_new_def new_CssSelectorBuilder_def
        element_def id_sel_def class_sel_def pseudoElement_def combine_def stringify_def
        seq_def checkOrder_def checkCount_def push_def returns_def throw_def
        order_def order_table_def)
  show ?thesis
    using limited_kinds_at_most_once [OF run] run by simp
qed


section \<open>Properties of getJSON and fromJSON\<close>

subsection \<open>Evaluating the parser and the printer\<close>

text \<open>The equations of the parser at a numeral bound, for evaluation by rewriting.\<close>

lemmas parse_value_numeral =
  parse_value.simps(2) [of "pred_numeral k" for k, folded numeral_eq_Suc]

lemmas parse_elements_numeral =
  parse_elements.simps(2) [of "pred_numeral k" for k, folded numeral_eq_Suc]

lemmas parse_members_numeral =
  parse_members.simps(2) [of "pred_numeral k" for k, folded numeral_eq_Suc]

lemmas parse_eval =
  parse_value_numeral parse_elements_numeral parse_members_numeral
  JSON_parse_def skip_ws_def is_ws_def is_digit_def parse_number_def parse_literal_def
  Let_def digit_value_def decimal_value_def is_safe_def MAX_SAFE_INTEGER_def
  define_property_def is_array_index_def

lemmas stringify_eval =
  quote_def needs_escape_def join_def is_safe_def MAX_SAFE_INTEGER_def
  number_text_def decimal.simps digit_char_def

lemma parse_rectangle_text:
  \<open>JSON_parse ''{"height":10,"width":20}'' =
     Inr (JObject [(''height'', JNumber 10), (''width'', JNumber 20)])\<close>
  by (simp add: parse_eval)

lemma parse_null_text: "JSON_parse ''null'' = Inr JNull"
  by (simp add: parse_eval)

subsection \<open>The bound of the parser\<close>

text \<open>
  Every successful step of the parser consumes input, so the answer of \<open>JSON_parse\<close>
  does not depend on the bound it gives the parser: with any larger bound the answer is
  the same.
\<close>

lemma length_skip_ws: "length (skip_ws s) \<le> length s"
  by (simp add: skip_ws_def length_dropWhile_le)

lemma skip_ws_Cons: "skip_ws s = c # r \<Longrightarrow> length r < length s"
  using length_skip_ws [of s] by simp

lemma parse_string_shorter: "parse_string s = Inr (str, r) \<Longrightarrow> length r < length s"
  by (induction s arbitrary: str r) (auto split: if_splits sum.splits)

lemma parse_number_shorter: "parse_number s = Inr (v, r) \<Longrightarrow> length r < length s"
  by (cases s) (auto simp: parse_number_def Let_def split: if_splits)

lemma parse_literal_shorter: "parse_literal s = Inr (v, r) \<Longrightarrow> length r < length s"
  by (cases s) (auto simp: parse_literal_def split: if_splits)

lemma parse_shorter:
  "(parse_value n s = Inr (v, r) \<longrightarrow> length r < length s) \<and>
   (parse_elements n vs s = Inr (v, r) \<longrightarrow> length r < length s) \<and>
   (parse_members n kvs s = Inr (v, r) \<longrightarrow> length r < length s)"
proof (induction n arbitrary: s v r vs kvs)
  case 0
  then show ?case by simp
next
  case (Suc n)
  have val: "length r < length s" if "parse_value (Suc n) s = Inr (v, r)" for s v r
    using that Suc.IH
    by (fastforce split: list.splits if_splits sum.splits prod.splits
        dest!: skip_ws_Cons parse_string_shorter parse_number_shorter parse_literal_shorter)
  have els: "length r < length s" if "parse_elements (Suc n) vs s = Inr (v, r)" for s v r vs
  proof -
    from that obtain v1 r1 where v1: "parse_value n s = Inr (v1, r1)"
      by (auto split: sum.splits)
    then have l1: "length r1 < length s" using Suc.IH by blast
    from that v1 obtain c r' where c: "skip_ws r1 = c # r'"
      by (auto split: list.splits)
    then have l2: "length r' < length r1" by (rule skip_ws_Cons)
    show ?thesis
    proof (cases "c = CHR '',''")
      case True
      then have "parse_elements n (vs @ [v1]) r' = Inr (v, r)"
        using that v1 c by simp
      then have "length r < length r'" using Suc.IH by blast
      then show ?thesis using l1 l2 by simp
    next
      case False
      then have "r = r'" using that v1 c by (auto split: if_splits)
      then show ?thesis using l1 l2 by simp
    qed
  qed
  have mem: "length r < length s" if "parse_members (Suc n) kvs s = Inr (v, r)" for s v r kvs
  proof -
    from that obtain q r0 where q: "skip_ws s = q # r0" and qq: "q = CHR 0x22"
      by (auto split: list.splits if_splits)
    from that q qq obtain k r1 where k: "parse_string r0 = Inr (k, r1)"
      by (auto split: sum.splits)
    from that q qq k obtain c r2 where c: "skip_ws r1 = c # r2" and cc: "c = CHR '':''"
      by (auto split: list.splits if_splits)
    from that q qq k c cc obtain v1 r3 where v1: "parse_value n r2 = Inr (v1, r3)"
      by (auto split: sum.splits)
    from that q qq k c cc v1 obtain c' r4 where c': "skip_ws r3 = c' # r4"
      by (auto split: list.splits)
    have l: "length r4 < length s"
      using skip_ws_Cons [OF q] parse_string_shorter [OF k] skip_ws_Cons [OF c]
        skip_ws_Cons [OF c'] Suc.IH v1 by fastforce
    show ?thesis
    proof (cases "c' = CHR '',''")
      case True
      then have "parse_members n (define_property kvs k v1) r4 = Inr (v, r)"
        using that q qq k c cc v1 c' by simp
      then have "length r < length r4" using Suc.IH by blast
      then show ?thesis using l by simp
    next
      case False
      then have "r = r4" using that q qq k c cc v1 c' by (auto split: if_splits)
      then show ?thesis using l by simp
    qed
  qed
  show ?case using val els mem by blast
qed


lemma parse_value_shorter: "parse_value n s = Inr (v, r) \<Longrightarrow> length r < length s"
  using parse_shorter by blast

lemma parse_stable:
  "(2 * length s + 1 \<le> n \<longrightarrow> parse_value (n + d) s = parse_value n s) \<and>
   (2 * length s + 2 \<le> n \<longrightarrow> parse_elements (n + d) vs s = parse_elements n vs s) \<and>
   (2 * length s + 1 \<le> n \<longrightarrow> parse_members (n + d) kvs s = parse_members n kvs s)"
proof (induction n arbitrary: s vs kvs)
  case 0
  then show ?case by simp
next
  case (Suc n)
  have IHv: "parse_value (n + d) t = parse_value n t" if "2 * length t + 1 \<le> n" for t
    using Suc.IH that by blast
  have IHe: "parse_elements (n + d) ws t = parse_elements n ws t" if "2 * length t + 2 \<le> n" for t ws
    using Suc.IH that by blast
  have IHm: "parse_members (n + d) ws t = parse_members n ws t" if "2 * length t + 1 \<le> n" for t ws
    using Suc.IH that by blast
  have val: "parse_value (Suc n + d) s = parse_value (Suc n) s" if h: "2 * length s + 1 \<le> Suc n"
  proof (cases "skip_ws s")
    case Nil
    then show ?thesis by simp
  next
    case (Cons c r)
    then have "length r < length s" by (rule skip_ws_Cons)
    then have "2 * length r + 2 \<le> n" using h by simp
    then have "parse_members (n + d) [] r = parse_members n [] r"
      and "parse_elements (n + d) [] r = parse_elements n [] r"
      by (simp_all add: IHm IHe)
    then show ?thesis using Cons by (simp split: list.splits)
  qed
  have els: "parse_elements (Suc n + d) vs s = parse_elements (Suc n) vs s"
    if h: "2 * length s + 2 \<le> Suc n"
  proof -
    have pv: "parse_value (n + d) s = parse_value n s"
      using h by (simp add: IHv)
    show ?thesis
    proof (cases "parse_value n s")
      case (Inl e)
      then show ?thesis using pv by simp
    next
      case (Inr p)
      obtain v r where p: "p = (v, r)" by (cases p)
      have l1: "length r < length s"
        using Inr p by (simp add: parse_value_shorter)
      show ?thesis
      proof (cases "skip_ws r")
        case Nil
        then show ?thesis using pv Inr p by simp
      next
        case (Cons c r')
        then have "length r' < length r" by (rule skip_ws_Cons)
        then have "2 * length r' + 2 \<le> n" using l1 h by simp
        then have "parse_elements (n + d) (vs @ [v]) r' = parse_elements n (vs @ [v]) r'"
          by (rule IHe)
        then show ?thesis using pv Inr p Cons by simp
      qed
    qed
  qed
  have mem: "parse_members (Suc n + d) kvs s = parse_members (Suc n) kvs s"
    if h: "2 * length s + 1 \<le> Suc n"
  proof (cases "skip_ws s")
    case Nil
    then show ?thesis by simp
  next
    case q: (Cons q r0)
    then have l0: "length r0 < length s" by (rule skip_ws_Cons)
    show ?thesis
    proof (cases "parse_string r0")
      case (Inl e)
      then show ?thesis using q by simp
    next
      case (Inr p)
      obtain k r1 where p: "p = (k, r1)" by (cases p)
      have l1: "length r1 < length r0"
        using Inr p by (simp add: parse_string_shorter)
      show ?thesis
      proof (cases "skip_ws r1")
        case Nil
        then show ?thesis using q Inr p by simp
      next
        case c: (Cons c r2)
        then have l2: "length r2 < length r1" by (rule skip_ws_Cons)
        then have "2 * length r2 + 1 \<le> n" using l0 l1 h by simp
        then have pv: "parse_value (n + d) r2 = parse_value n r2" by (rule IHv)
        show ?thesis
        proof (cases "parse_value n r2")
          case (Inl e)
          then show ?thesis using q Inr p c pv by simp
        next
          case v: (Inr p')
          obtain v1 r3 where p': "p' = (v1, r3)" by (cases p')
          have l3: "length r3 < length r2"
            using v p' by (simp add: parse_value_shorter)
          show ?thesis
          proof (cases "skip_ws r3")
            case Nil
            then show ?thesis using q Inr p c pv v p' by simp
          next
            case c': (Cons c' r4)
            then have "length r4 < length r3" by (rule skip_ws_Cons)
            then have "2 * length r4 + 1 \<le> n" using l0 l1 l2 l3 h by simp
            then have "parse_members (n + d) (define_property kvs k v1) r4 =
                parse_members n (define_property kvs k v1) r4"
              by (rule IHm)
            then show ?thesis using q Inr p c pv v p' c' by simp
          qed
        qed
      qed
    qed
  qed
  show ?case using val els mem by blast
qed

lemma JSON_parse_bound:
  "JSON_parse text =
     (case parse_value (2 * length text + 2 + d) text of
        Inl e \<Rightarrow> Inl e
      | Inr (v, r) \<Rightarrow> if skip_ws r = [] then Inr v else Inl SyntaxError)"
proof -
  have "parse_value (2 * length text + 2 + d) text = parse_value (2 * length text + 2) text"
    using parse_stable [of "text" "2 * length text + 2" d] by simp
  then show ?thesis by (simp add: JSON_parse_def)
qed

text \<open>The example of the doc comment of \<^verbatim>\<open>Rectangle\<close>: \<^verbatim>\<open>new Rectangle(10,20).getArea()\<close>.\<close>

lemma Rectangle_getArea: "call_method (Rectangle (JNumber 10) (JNumber 20)) ''getArea'' = Inr 200"
  by (simp add: call_method_def Rectangle_def Rectangle_prototype_def getArea_def
      property_value_def data_property_def is_safe_def MAX_SAFE_INTEGER_def)

subsection \<open>The round trip of a rectangle\<close>

text \<open>
  C7. \<^verbatim>\<open>getJSON({height:10, width:20})\<close> is the text \<^verbatim>\<open>{"height":10,"width":20}\<close>, and
  \<^verbatim>\<open>fromJSON(Rectangle.prototype, text)\<close> on that text returns an object whose prototype is
  \<^verbatim>\<open>Rectangle.prototype\<close>, whose \<^verbatim>\<open>height\<close> is 10 and \<^verbatim>\<open>width\<close> is 20, which has no own property
  \<^verbatim>\<open>getArea\<close>, and on which the call \<^verbatim>\<open>getArea()\<close> finds the prototype's method and returns
  200.
\<close>

theorem rectangle_round_trip:
  \<open>getJSON (JObject [(''height'', JNumber 10), (''width'', JNumber 20)]) =
     Inr ''{"height":10,"width":20}'' \<and>
   fromJSON Rectangle_prototype ''{"height":10,"width":20}'' =
     Inr \<lparr>obj_proto = Rectangle_prototype,
          obj_props = [(''height'', data_property (JNumber 10)),
                       (''width'', data_property (JNumber 20))]\<rparr> \<and>
   property_value [(''height'', data_property (JNumber 10)),
                   (''width'', data_property (JNumber 20))] ''height'' = Some (JNumber 10) \<and>
   property_value [(''height'', data_property (JNumber 10)),
                   (''width'', data_property (JNumber 20))] ''width'' = Some (JNumber 20) \<and>
   property_value [(''height'', data_property (JNumber 10)),
                   (''width'', data_property (JNumber 20))] ''getArea'' = None \<and>
   call_method \<lparr>obj_proto = Rectangle_prototype,
          obj_props = [(''height'', data_property (JNumber 10)),
                       (''width'', data_property (JNumber 20))]\<rparr> ''getArea'' = Inr 200\<close>
proof (intro conjI)
  show \<open>getJSON (JObject [(''height'', JNumber 10), (''width'', JNumber 20)]) =
     Inr ''{"height":10,"width":20}''\<close>
    by (simp add: getJSON_def stringify_eval)
  show \<open>fromJSON Rectangle_prototype ''{"height":10,"width":20}'' =
     Inr \<lparr>obj_proto = Rectangle_prototype,
          obj_props = [(''height'', data_property (JNumber 10)),
                       (''width'', data_property (JNumber 20))]\<rparr>\<close>
    unfolding fromJSON_def parse_rectangle_text by (simp add: Object_create_def)
qed (simp_all add: property_value_def data_property_def call_method_def Rectangle_prototype_def
    getArea_def is_safe_def MAX_SAFE_INTEGER_def)

subsection \<open>Well-formed text on which fromJSON throws\<close>

text \<open>
  C9. The text \<^verbatim>\<open>null\<close> is well-formed: \<^verbatim>\<open>JSON.parse\<close> returns \<^verbatim>\<open>null\<close> on it. \<^verbatim>\<open>fromJSON\<close> with
  any prototype throws on it all the same, a TypeError of
  \<^verbatim>\<open>Object.getOwnPropertyDescriptors\<close>, and returns no object.
\<close>

theorem fromJSON_null_throws:
  "JSON_parse ''null'' = Inr JNull \<and> fromJSON proto ''null'' = Inl TypeError"
  by (simp add: fromJSON_def parse_null_text)


end
